theory Spec2Isabelle
  imports
    Complex_Main
    "HOL-Library.Log_Nat"
    "HOL-Library.Sublist"
    "HOL-Library.Char_ord"
    "HOL-Library.List_Lexorder"
begin

section \<open>visualize\_evolution.py: network snapshots rendered into an animated GIF\<close>

text \<open>
  The module has two pipelines, \<^verbatim>\<open>visualize_network_evolution\<close> and
  \<^verbatim>\<open>create_comparison_gif\<close>. Both list the \<^verbatim>\<open>*.out\<close> files of a directory in
  sorted order, sub-sample the list, render one frame per file inside a
  \<^verbatim>\<open>try/except Exception\<close>, and save the frames as a looping GIF.

  The drawing routine \<^verbatim>\<open>nv.viewInd\<close>, matplotlib, \<^verbatim>\<open>np.loadtxt\<close>, \<^verbatim>\<open>glob.glob\<close> and
  PIL are libraries: they are parameters of the model (record \<open>collab\<close>), each
  returning either the exception it raises or its result. The keyword arguments
  \<^verbatim>\<open>figsize\<close> and \<^verbatim>\<open>dpi\<close> are never read by either function and are left out.
\<close>

subsection \<open>Exceptions, paths and strings\<close>

type_synonym path = string

datatype exn = ZeroDivisionError | ValueError | IndexError | Exception string

text \<open>\<^verbatim>\<open>os.path.basename\<close> (POSIX): everything after the last slash.\<close>

definition basename :: "path \<Rightarrow> string" where
  "basename p = rev (takeWhile (\<lambda>c. c \<noteq> CHR ''/'') (rev p))"

text \<open>\<^verbatim>\<open>os.path.join\<close> (POSIX) of two components.\<close>

definition path_join :: "path \<Rightarrow> path \<Rightarrow> path" where
  "path_join a b =
     (if b \<noteq> [] \<and> hd b = CHR ''/'' then b
      else if a = [] \<or> last a = CHR ''/'' then a @ b
      else a @ ''/'' @ b)"

text \<open>
  \<^verbatim>\<open>str.replace(old, new)\<close>: every non-overlapping occurrence of \<open>old\<close>, found from
  the left, is replaced. With an empty \<open>old\<close> Python puts \<open>new\<close> around every
  character.
\<close>

function str_replace :: "string \<Rightarrow> string \<Rightarrow> string \<Rightarrow> string" where
  "str_replace old new s =
     (if old = [] then new @ concat (map (\<lambda>c. c # new) s)
      else if s = [] then []
      else if prefix old s then new @ str_replace old new (drop (length old) s)
      else hd s # str_replace old new (tl s))"
  by pat_completeness auto
termination
  by (relation "measure (\<lambda>(old, new, s). length s)") auto

declare str_replace.simps [simp del]

text \<open>
  Line 52 and line 140:
  \<^verbatim>\<open>generation = os.path.basename(network_file).replace('.out', '')\<close>.
\<close>

definition generation :: "path \<Rightarrow> string" where
  "generation network_file = str_replace ''.out'' [] (basename network_file)"

text \<open>
  The filename stem, following the spec's words (``the filename without its
  extension''), as \<^verbatim>\<open>os.path.splitext\<close> computes it on a base name: the
  extension starts at the last dot, unless only dots come before it.
\<close>

definition stem :: "string \<Rightarrow> string" where
  "stem b =
     (case dropWhile (\<lambda>c. c \<noteq> CHR ''.'') (rev b) of
        [] \<Rightarrow> b
      | dot # root_rev \<Rightarrow>
          if list_all (\<lambda>c. c = CHR ''.'') root_rev then b else rev root_rev)"

subsection \<open>Stride sampling: the slice \<^verbatim>\<open>network_files[::sample_every]\<close>\<close>

text \<open>Walking a list from its first element in steps of \<open>n\<close>.\<close>

fun every_nth :: "nat \<Rightarrow> 'a list \<Rightarrow> 'a list" where
  "every_nth n [] = []"
| "every_nth n (x # xs) = x # every_nth n (drop (n - 1) xs)"

text \<open>
  The extended slice \<^verbatim>\<open>xs[::step]\<close>: a zero step raises \<^verbatim>\<open>ValueError\<close>, a negative
  step walks from the last element backwards.
\<close>

definition slice_step :: "'a list \<Rightarrow> int \<Rightarrow> exn + 'a list" where
  "slice_step xs step =
     (if step = 0 then Inl ValueError
      else if 0 < step then Inr (every_nth (nat step) xs)
      else Inr (every_nth (nat (- step)) (rev xs)))"

subsection \<open>Double precision\<close>

text \<open>
  \<^verbatim>\<open>np.linspace\<close> computes in IEEE binary64. A double is modelled by the rational
  it denotes, and each operation by the exact result rounded to 53 significant
  bits, ties to even. The exponent range (overflow, subnormals), infinities
  and NaN are not modelled: the values that occur are list positions.
\<close>

text \<open>Round to the nearest integer, ties to the even one (also Python's \<^verbatim>\<open>round\<close>).\<close>

definition round_half_even :: "rat \<Rightarrow> int" where
  "round_half_even y =
     (let f = \<lfloor>y\<rfloor>; r = y - of_int f
      in if r < 1 / 2 then f
         else if 1 / 2 < r then f + 1
         else if even f then f else f + 1)"

text \<open>The binary exponent \<open>e\<close> of a positive rational: \<open>2\<^sup>e \<le> x < 2\<^sup>e\<^sup>+\<^sup>1\<close>.\<close>

definition binary_exponent :: "rat \<Rightarrow> int" where
  "binary_exponent x =
     (if 1 \<le> x then bitlen \<lfloor>x\<rfloor> - 1 else - bitlen (\<lceil>1 / x\<rceil> - 1))"

definition to_double :: "rat \<Rightarrow> rat" where
  "to_double x =
     (if x = 0 then 0
      else let ulp = 2 powi (binary_exponent \<bar>x\<bar> - 52)
           in of_int (round_half_even (x / ulp)) * ulp)"

definition fmul :: "rat \<Rightarrow> rat \<Rightarrow> rat" where
  "fmul x y = to_double (x * y)"

definition fdiv :: "rat \<Rightarrow> rat \<Rightarrow> rat" where
  "fdiv x y = to_double (x / y)"

subsection \<open>Even sampling: \<^verbatim>\<open>np.linspace(0, stop, num, dtype=int)\<close>\<close>

text \<open>
  numpy's \<^verbatim>\<open>linspace\<close> with \<open>start = 0\<close>, \<open>endpoint=True\<close> and an integer dtype:
  \<^verbatim>\<open>
  if num < 0: raise ValueError
  div = num - 1
  delta = stop - start                 # as doubles
  y = arange(0, num)                   # as doubles
  if div > 0:
      step = delta / div
      if step == 0: y = y / div; y = y * delta
      else:         y = y * step
  else:
      y = y * delta
  y += start
  if num > 1: y[-1] = stop
  floor(y); astype(int)
  \<close>
\<close>

definition linspace_int :: "int \<Rightarrow> int \<Rightarrow> exn + int list" where
  "linspace_int stop num =
     (if num < 0 then Inl ValueError
      else
        let dv = to_double (of_int (num - 1));
            delta = to_double (of_int stop);
            y = map (\<lambda>i. to_double (of_nat i)) [0 ..< nat num];
            y = (if 0 < num - 1 then
                   let step = fdiv delta dv
                   in if step = 0
                      then map (\<lambda>v. fmul (fdiv v dv) delta) y
                      else map (\<lambda>v. fmul v step) y
                 else map (\<lambda>v. fmul v delta) y);
            y = (if 1 < num then y[nat num - 1 := delta] else y)
        in Inr (map floor y))"

text \<open>
  The index at position \<open>i\<close> when at least two samples are asked for and the
  step is not zero: the stop value at the last position, the floor of the rounded
  product \<open>i * step\<close> elsewhere.
\<close>

definition interpolated :: "int \<Rightarrow> int \<Rightarrow> nat \<Rightarrow> int" where
  "interpolated a K i =
     (if i = nat K - 1 then a
      else \<lfloor>fmul (of_nat i) (fdiv (of_int a) (of_int (K - 1)))\<rfloor>)"

text \<open>
  List indexing \<^verbatim>\<open>xs[i]\<close>: a negative index counts from the end, an index out of
  range raises \<^verbatim>\<open>IndexError\<close>.
\<close>

definition getitem :: "'a list \<Rightarrow> int \<Rightarrow> exn + 'a" where
  "getitem xs i =
     (if 0 \<le> i \<and> i < int (length xs) then Inr (xs ! nat i)
      else if i < 0 \<and> - int (length xs) \<le> i then Inr (xs ! nat (int (length xs) + i))
      else Inl IndexError)"

text \<open>The comprehension \<^verbatim>\<open>[network_files[i] for i in indices]\<close>.\<close>

fun getitems :: "'a list \<Rightarrow> int list \<Rightarrow> exn + 'a list" where
  "getitems xs [] = Inr []"
| "getitems xs (i # is) =
     (case getitem xs i of
        Inl e \<Rightarrow> Inl e
      | Inr x \<Rightarrow> (case getitems xs is of Inl e \<Rightarrow> Inl e | Inr ys \<Rightarrow> Inr (x # ys)))"

text \<open>
  Lines 132--134:
  \<^verbatim>\<open>
  if len(network_files) > num_snapshots:
      indices = np.linspace(0, len(network_files)-1, num_snapshots, dtype=int)
      network_files = [network_files[i] for i in indices]
  \<close>
\<close>

definition select_snapshots :: "'a list \<Rightarrow> int \<Rightarrow> exn + 'a list" where
  "select_snapshots network_files num_snapshots =
     (if num_snapshots < int (length network_files) then
        (case linspace_int (int (length network_files) - 1) num_snapshots of
           Inl e \<Rightarrow> Inl e
         | Inr indices \<Rightarrow> getitems network_files indices)
      else Inr network_files)"

subsection \<open>The world: open figures, written files, console\<close>

datatype title = Title string | StatsTitle string nat nat

datatype ndarray = Arr0 rat | Arr1 "rat list" | Arr2 "rat list list"

datatype msg =
    NoOutFiles path
  | Found nat
  | Creating nat
  | CreatingComparison nat
  | Processing nat nat string
  | ProcessingSnapshot nat nat string
  | ErrorProcessing path exn
  | NoFrames
  | Saving path
  | Saved nat path
  | Settings int int

record 'img gif =
  gif_frames :: "'img list"
  gif_duration :: int
  gif_loop :: int

text \<open>
  \<open>figures\<close> is pyplot's registry of open figures, \<open>disk\<close> the files written,
  \<open>stdout\<close> what was printed, oldest first.
\<close>

record ('fig, 'img) world =
  figures :: "'fig list"
  disk :: "path \<rightharpoonup> 'img gif"
  stdout :: "msg list"

text \<open>
  The libraries. \<open>viewInd\<close> is \<^verbatim>\<open>nv.viewInd(network_file, task_name)\<close>, which opens
  a figure. \<open>rasterize\<close> stands for the lines between it and \<^verbatim>\<open>plt.close\<close>:
  \<^verbatim>\<open>ax.set_title\<close>, \<^verbatim>\<open>fig.canvas.draw\<close>, \<^verbatim>\<open>tostring_rgb\<close>, \<^verbatim>\<open>reshape\<close> and
  \<^verbatim>\<open>Image.fromarray\<close>.
\<close>

record ('fig, 'img) collab =
  glob :: "path \<Rightarrow> path list"
  viewInd :: "path \<Rightarrow> string \<Rightarrow> exn + 'fig"
  rasterize :: "'fig \<Rightarrow> title \<Rightarrow> exn + 'img"
  loadtxt :: "path \<Rightarrow> exn + ndarray"

definition emit :: "msg \<Rightarrow> ('fig, 'img) world \<Rightarrow> ('fig, 'img) world" where
  "emit m w = w\<lparr>stdout := stdout w @ [m]\<rparr>"

definition open_figure :: "'fig \<Rightarrow> ('fig, 'img) world \<Rightarrow> ('fig, 'img) world" where
  "open_figure fig w = w\<lparr>figures := figures w @ [fig]\<rparr>"

text \<open>\<^verbatim>\<open>plt.close(fig)\<close>.\<close>

definition close_figure :: "'fig \<Rightarrow> ('fig, 'img) world \<Rightarrow> ('fig, 'img) world" where
  "close_figure fig w = w\<lparr>figures := remove1 fig (figures w)\<rparr>"

text \<open>A \<^verbatim>\<open>for i, x in enumerate(xs)\<close> loop over a state.\<close>

fun for_enumerate :: "(nat \<Rightarrow> 'a \<Rightarrow> 's \<Rightarrow> 's) \<Rightarrow> nat \<Rightarrow> 'a list \<Rightarrow> 's \<Rightarrow> 's" where
  "for_enumerate body i [] s = s"
| "for_enumerate body i (x # xs) s = for_enumerate body (Suc i) xs (body i x s)"

subsection \<open>Saving the animation\<close>

text \<open>Line 86 and line 177: \<^verbatim>\<open>duration = int(1000 / fps)\<close>.

  \<open>1000 / fps\<close> is a true division, which raises on a zero divisor, and \<^verbatim>\<open>int\<close>
  cuts the double towards zero. For an integer \<open>fps\<close> the double quotient and
  the exact quotient have the same integer part.\<close>

definition duration :: "int \<Rightarrow> exn + int" where
  "duration fps =
     (if fps = 0 then Inl ZeroDivisionError
      else Inr (sgn fps * (1000 div \<bar>fps\<bar>)))"

text \<open>
  Lines 89--95 and 180--186:
  \<^verbatim>\<open>frames[0].save(output_gif, save_all=True, append_images=frames[1:],
                  duration=duration, loop=0)\<close>.
  Errors of PIL itself while writing are not modelled.
\<close>

definition save_gif ::
  "'img list \<Rightarrow> path \<Rightarrow> int \<Rightarrow> ('fig, 'img) world \<Rightarrow> ('fig, 'img) world" where
  "save_gif frames output_gif d w =
     w\<lparr>disk := (disk w)(output_gif \<mapsto>
          \<lparr>gif_frames = hd frames # tl frames, gif_duration = d, gif_loop = 0\<rparr>)\<rparr>"

datatype outcome = Returned | Raised exn

subsection \<open>The plain pipeline\<close>

text \<open>Lines 51--79, one iteration of the loop.\<close>

definition render_frame ::
  "('fig, 'img) collab \<Rightarrow> string \<Rightarrow> nat \<Rightarrow> nat \<Rightarrow> path \<Rightarrow>
   'img list \<times> ('fig, 'img) world \<Rightarrow> 'img list \<times> ('fig, 'img) world" where
  "render_frame env task_name n_total i network_file s =
     (let (frames, w) = s;
          gen = generation network_file;
          w = emit (Processing (i + 1) n_total gen) w
      in case viewInd env network_file task_name of
           Inl e \<Rightarrow> (frames, emit (ErrorProcessing network_file e) w)
         | Inr fig \<Rightarrow>
             (let w = open_figure fig w
              in case rasterize env fig (Title gen) of
                   Inl e \<Rightarrow> (frames, emit (ErrorProcessing network_file e) w)
                 | Inr img \<Rightarrow> (frames @ [img], close_figure fig w)))"

definition visualize_network_evolution ::
  "('fig, 'img) collab \<Rightarrow> path \<Rightarrow> path \<Rightarrow> string \<Rightarrow> int \<Rightarrow> int \<Rightarrow>
   ('fig, 'img) world \<Rightarrow> outcome \<times> ('fig, 'img) world" where
  "visualize_network_evolution env networks_dir output_gif task_name fps sample_every w =
     (let network_files = sort (glob env (path_join networks_dir ''*.out''))
      in if length network_files = 0 then (Returned, emit (NoOutFiles networks_dir) w)
         else
           case slice_step network_files sample_every of
             Inl e \<Rightarrow> (Raised e, w)
           | Inr network_files \<Rightarrow>
               (let w = emit (Found (length network_files)) w;
                    w = emit (Creating (length network_files)) w;
                    (frames, w) =
                      for_enumerate (render_frame env task_name (length network_files))
                        0 network_files ([], w)
                in if length frames = 0 then (Returned, emit NoFrames w)
                   else
                     case duration fps of
                       Inl e \<Rightarrow> (Raised e, w)
                     | Inr d \<Rightarrow>
                         (let w = emit (Saving output_gif) w;
                              w = save_gif frames output_gif d w;
                              w = emit (Saved (length frames) output_gif) w;
                              w = emit (Settings fps d) w
                          in (Returned, w))))"

subsection \<open>The comparison pipeline\<close>

text \<open>
  Lines 145--148: \<^verbatim>\<open>wMat = ind[:, :-1]\<close> needs a two-dimensional array (a file of
  one row loads as a one-dimensional one and the index raises);
  \<^verbatim>\<open>num_connections = np.sum(wMat != 0)\<close>, \<^verbatim>\<open>num_nodes = wMat.shape[0]\<close>.
\<close>

definition network_stats :: "ndarray \<Rightarrow> exn + nat \<times> nat" where
  "network_stats ind =
     (case ind of
        Arr2 rows \<Rightarrow>
          (let wMat = map butlast rows
           in Inr (length wMat, length (filter (\<lambda>x. x \<noteq> 0) (concat wMat))))
      | _ \<Rightarrow> Inl IndexError)"

text \<open>Lines 139--170, one iteration of the loop.\<close>

definition render_snapshot ::
  "('fig, 'img) collab \<Rightarrow> string \<Rightarrow> nat \<Rightarrow> nat \<Rightarrow> path \<Rightarrow>
   'img list \<times> ('fig, 'img) world \<Rightarrow> 'img list \<times> ('fig, 'img) world" where
  "render_snapshot env task_name n_total i network_file s =
     (let (frames, w) = s;
          gen = generation network_file;
          w = emit (ProcessingSnapshot (i + 1) n_total gen) w
      in case loadtxt env network_file of
           Inl e \<Rightarrow> (frames, emit (ErrorProcessing network_file e) w)
         | Inr ind \<Rightarrow>
            (case network_stats ind of
               Inl e \<Rightarrow> (frames, emit (ErrorProcessing network_file e) w)
             | Inr (num_nodes, num_connections) \<Rightarrow>
                (case viewInd env network_file task_name of
                   Inl e \<Rightarrow> (frames, emit (ErrorProcessing network_file e) w)
                 | Inr fig \<Rightarrow>
                     (let w = open_figure fig w
                      in case rasterize env fig (StatsTitle gen num_nodes num_connections) of
                           Inl e \<Rightarrow> (frames, emit (ErrorProcessing network_file e) w)
                         | Inr img \<Rightarrow> (frames @ [img], close_figure fig w)))))"

definition create_comparison_gif ::
  "('fig, 'img) collab \<Rightarrow> path \<Rightarrow> path \<Rightarrow> string \<Rightarrow> int \<Rightarrow> int \<Rightarrow>
   ('fig, 'img) world \<Rightarrow> outcome \<times> ('fig, 'img) world" where
  "create_comparison_gif env networks_dir output_gif task_name fps num_snapshots w =
     (let network_files = sort (glob env (path_join networks_dir ''*.out''))
      in if length network_files = 0 then (Returned, emit (NoOutFiles networks_dir) w)
         else
           case select_snapshots network_files num_snapshots of
             Inl e \<Rightarrow> (Raised e, w)
           | Inr network_files \<Rightarrow>
               (let w = emit (CreatingComparison (length network_files)) w;
                    (frames, w) =
                      for_enumerate (render_snapshot env task_name (length network_files))
                        0 network_files ([], w)
                in if length frames = 0 then (Returned, emit NoFrames w)
                   else
                     case duration fps of
                       Inl e \<Rightarrow> (Raised e, w)
                     | Inr d \<Rightarrow>
                         (let w = emit (Saving output_gif) w;
                              w = save_gif frames output_gif d w;
                              w = emit (Saved (length frames) output_gif) w
                          in (Returned, w))))"

subsection \<open>Which files render\<close>

text \<open>
  The frame a file yields when every step of its iteration succeeds, \<open>None\<close> when
  one of them raises: in the plain pipeline and in the comparison pipeline.
\<close>

definition rendered :: "('fig, 'img) collab \<Rightarrow> string \<Rightarrow> path \<Rightarrow> 'img option" where
  "rendered env task_name network_file =
     (case viewInd env network_file task_name of
        Inl e \<Rightarrow> None
      | Inr fig \<Rightarrow>
          (case rasterize env fig (Title (generation network_file)) of
             Inl e \<Rightarrow> None
           | Inr img \<Rightarrow> Some img))"

definition rendered_snapshot :: "('fig, 'img) collab \<Rightarrow> string \<Rightarrow> path \<Rightarrow> 'img option" where
  "rendered_snapshot env task_name network_file =
     (case loadtxt env network_file of
        Inl e \<Rightarrow> None
      | Inr ind \<Rightarrow>
         (case network_stats ind of
            Inl e \<Rightarrow> None
          | Inr (num_nodes, num_connections) \<Rightarrow>
             (case viewInd env network_file task_name of
                Inl e \<Rightarrow> None
              | Inr fig \<Rightarrow>
                 (case rasterize env fig
                         (StatsTitle (generation network_file) num_nodes num_connections) of
                    Inl e \<Rightarrow> None
                  | Inr img \<Rightarrow> Some img))))"

subsection \<open>A stub renderer\<close>

text \<open>
  Three snapshot files, listed out of order; the figure of a file is its path, the
  bitmap is the figure with its title, and drawing \<^verbatim>\<open>gen2\<close> fails after its figure
  was opened.
\<close>

definition stub_env :: "(path, path \<times> title) collab" where
  "stub_env =
     \<lparr>glob = (\<lambda>pattern. [''log/gen2.out'', ''log/gen1.out'', ''log/gen3.out'']),
      viewInd = (\<lambda>network_file task_name. Inr network_file),
      rasterize = (\<lambda>fig t. if fig = ''log/gen2.out'' then Inl (Exception ''draw'')
                             else Inr (fig, t)),
      loadtxt = (\<lambda>network_file. Inr (Arr2 [[0, 1, 0, 1], [2, 0, 0, 1], [0, 0, 3, 1]]))\<rparr>"

definition no_world :: "('fig, 'img) world" where
  "no_world = \<lparr>figures = [], disk = Map.empty, stdout = []\<rparr>"

section \<open>Stride sampling\<close>



lemma set_every_nth: "set (every_nth n xs) \<subseteq> set xs"
proof (induction n xs rule: every_nth.induct)
  case (2 n x xs)
  then show ?case using set_drop_subset[of "n - 1" xs] by auto
qed simp

lemma every_nth_one: "every_nth (Suc 0) xs = xs"
  by (induction xs) simp_all




section \<open>The rendering loops\<close>

lemma disk_emit [simp]: "disk (emit m w) = disk w"
  by (simp add: emit_def)

lemma disk_open_figure [simp]: "disk (open_figure fig w) = disk w"
  by (simp add: open_figure_def)

lemma disk_close_figure [simp]: "disk (close_figure fig w) = disk w"
  by (simp add: close_figure_def)

lemma render_frame_frames:
  "fst (render_frame env task n i f (frames, w)) =
     frames @ (case rendered env task f of None \<Rightarrow> [] | Some img \<Rightarrow> [img])"
  by (simp add: render_frame_def rendered_def Let_def split: sum.splits)

lemma render_frame_disk:
  "disk (snd (render_frame env task n i f (frames, w))) = disk w"
  by (simp add: render_frame_def Let_def split: sum.splits)

lemma render_snapshot_frames:
  "fst (render_snapshot env task n i f (frames, w)) =
     frames @ (case rendered_snapshot env task f of None \<Rightarrow> [] | Some img \<Rightarrow> [img])"
  by (simp add: render_snapshot_def rendered_snapshot_def Let_def split: sum.splits prod.splits)

lemma render_snapshot_disk:
  "disk (snd (render_snapshot env task n i f (frames, w))) = disk w"
  by (simp add: render_snapshot_def Let_def split: sum.splits prod.splits)

lemma map_filter_Cons:
  "List.map_filter g (x # xs) = (case g x of None \<Rightarrow> [] | Some y \<Rightarrow> [y]) @ List.map_filter g xs"
  by (simp add: List.map_filter_def split: option.splits)

lemma for_enumerate_frames:
  assumes "\<And>i f frames w. fst (body i f (frames, w)) =
              frames @ (case g f of None \<Rightarrow> [] | Some img \<Rightarrow> [img])"
  shows "fst (for_enumerate body i fs (frames, w)) = frames @ List.map_filter g fs"
proof (induction fs arbitrary: i frames w)
  case Nil
  then show ?case by (simp add: List.map_filter_def)
next
  case (Cons f fs)
  obtain frames' w' where b: "body i f (frames, w) = (frames', w')"
    by (cases "body i f (frames, w)")
  with assms[of i f frames w] have "frames' = frames @ (case g f of None \<Rightarrow> [] | Some img \<Rightarrow> [img])"
    by simp
  with Cons[of "Suc i" frames' w'] b show ?case
    by (simp add: map_filter_Cons split: option.splits)
qed

lemma for_enumerate_disk:
  assumes "\<And>i f frames w. disk (snd (body i f (frames, w))) = disk w"
  shows "disk (snd (for_enumerate body i fs (frames, w))) = disk w"
proof (induction fs arbitrary: i frames w)
  case Nil
  then show ?case by simp
next
  case (Cons f fs)
  obtain frames' w' where b: "body i f (frames, w) = (frames', w')"
    by (cases "body i f (frames, w)")
  with assms[of i f frames w] have "disk w' = disk w" by simp
  with Cons[of "Suc i" frames' w'] b show ?case by simp
qed

lemmas render_loop_frames = for_enumerate_frames[of "render_frame env task n" "rendered env task" for env task n, OF render_frame_frames]
lemmas render_loop_disk = for_enumerate_disk[of "render_frame env task n" for env task n, OF render_frame_disk]
lemmas snapshot_loop_frames = for_enumerate_frames[of "render_snapshot env task n" "rendered_snapshot env task" for env task n, OF render_snapshot_frames]
lemmas snapshot_loop_disk = for_enumerate_disk[of "render_snapshot env task n" for env task n, OF render_snapshot_disk]

lemma sort_eq_Nil [simp]: "sort xs = [] \<longleftrightarrow> xs = []"
  by (metis length_sort length_0_conv)

lemma slice_step_Nil: "slice_step [] S = Inr sel \<Longrightarrow> sel = []"
  by (auto simp: slice_step_def split: if_splits)

lemma hd_tl_frames: "frames \<noteq> [] \<Longrightarrow> hd frames # tl frames = frames"
  by simp



lemma stub_sorted:
  "sort (glob stub_env (path_join ''log'' ''*.out''))
     = [''log/gen1.out'', ''log/gen2.out'', ''log/gen3.out'']"
  by code_simp

lemma stub_rendered:
  "List.map_filter (rendered stub_env ''slimevolley'')
       [''log/gen1.out'', ''log/gen2.out'', ''log/gen3.out'']
     = [(''log/gen1.out'', Title ''gen1''), (''log/gen3.out'', Title ''gen3'')]"
  by code_simp



section \<open>Empty results\<close>

lemma map_filter_None: "(\<forall>x \<in> set xs. g x = None) \<Longrightarrow> List.map_filter g xs = []"
  by (induction xs) (simp_all add: List.map_filter_def)

lemma visualize_no_files:
  assumes "glob env (path_join networks_dir ''*.out'') = []"
  shows "visualize_network_evolution env networks_dir output_gif task_name fps sample_every w
           = (Returned, emit (NoOutFiles networks_dir) w)"
  using assms by (simp add: visualize_network_evolution_def)

lemma visualize_no_frames:
  assumes sel: "slice_step (sort (glob env (path_join networks_dir ''*.out''))) sample_every
                  = Inr selected"
    and none: "List.map_filter (rendered env task_name) selected = []"
  shows "fst (visualize_network_evolution env networks_dir output_gif task_name fps sample_every w)
           = Returned"
    and "disk (snd (visualize_network_evolution env networks_dir output_gif task_name fps
                      sample_every w)) = disk w"
proof -
  let ?w1 = "emit (Creating (length selected)) (emit (Found (length selected)) w)"
  let ?loop = "for_enumerate (render_frame env task_name (length selected)) 0 selected ([], ?w1)"
  obtain frames w2 where loop: "?loop = (frames, w2)" by (cases ?loop)
  have fr: "frames = []"
    using render_loop_frames[of env task_name "length selected" 0 selected "[]" ?w1] loop none
    by simp
  have dk: "disk w2 = disk w"
    using render_loop_disk[of env task_name "length selected" 0 selected "[]" ?w1] loop by simp
  show "fst (visualize_network_evolution env networks_dir output_gif task_name fps sample_every w)
           = Returned"
    using sel loop fr by (simp add: visualize_network_evolution_def Let_def)
  show "disk (snd (visualize_network_evolution env networks_dir output_gif task_name fps
                      sample_every w)) = disk w"
    using sel loop fr dk by (simp add: visualize_network_evolution_def Let_def)
qed

text \<open>
  Claim C6. If no file is discovered, or if the files to render were selected and
  none of them renders, the plain pipeline returns normally, whatever \<open>fps\<close> is,
  and the files on disk are what they were: no output file is written.
\<close>

theorem nothing_rendered_returns_normally:
  assumes "glob env (path_join networks_dir ''*.out'') = []
         \<or> (slice_step (sort (glob env (path_join networks_dir ''*.out''))) sample_every
               = Inr selected
            \<and> (\<forall>f \<in> set selected. rendered env task_name f = None))"
  shows "fst (visualize_network_evolution env networks_dir output_gif task_name fps
                sample_every w) = Returned
       \<and> disk (snd (visualize_network_evolution env networks_dir output_gif task_name fps
                       sample_every w)) = disk w"
  using assms
proof
  assume "glob env (path_join networks_dir ''*.out'') = []"
  then show ?thesis by (simp add: visualize_no_files)
next
  assume a: "slice_step (sort (glob env (path_join networks_dir ''*.out''))) sample_every
               = Inr selected
            \<and> (\<forall>f \<in> set selected. rendered env task_name f = None)"
  then have "List.map_filter (rendered env task_name) selected = []"
    by (simp add: map_filter_None)
  with a show ?thesis
    using visualize_no_frames[of env networks_dir sample_every selected task_name] by simp
qed

theorem nothing_rendered_returns_normally_witness:
  "glob (stub_env\<lparr>glob := \<lambda>pattern. []\<rparr>) (path_join ''log'' ''*.out'') = []
   \<and> fst (visualize_network_evolution (stub_env\<lparr>glob := \<lambda>pattern. []\<rparr>) ''log''
            ''evolution.gif'' ''slimevolley'' 0 0 no_world) = Returned
   \<and> disk (snd (visualize_network_evolution (stub_env\<lparr>glob := \<lambda>pattern. []\<rparr>) ''log''
            ''evolution.gif'' ''slimevolley'' 0 0 no_world)) = Map.empty
   \<and> slice_step (sort (glob (stub_env\<lparr>viewInd := \<lambda>f t. Inl ValueError\<rparr>)
                         (path_join ''log'' ''*.out''))) 2
        = Inr [''log/gen1.out'', ''log/gen3.out'']
   \<and> rendered (stub_env\<lparr>viewInd := \<lambda>f t. Inl ValueError\<rparr>) ''slimevolley''
         ''log/gen1.out'' = None
   \<and> rendered (stub_env\<lparr>viewInd := \<lambda>f t. Inl ValueError\<rparr>) ''slimevolley''
         ''log/gen3.out'' = None
   \<and> fst (visualize_network_evolution (stub_env\<lparr>viewInd := \<lambda>f t. Inl ValueError\<rparr>) ''log''
            ''evolution.gif'' ''slimevolley'' 0 2 no_world) = Returned
   \<and> disk (snd (visualize_network_evolution (stub_env\<lparr>viewInd := \<lambda>f t. Inl ValueError\<rparr>)
            ''log'' ''evolution.gif'' ''slimevolley'' 0 2 no_world)) = Map.empty"
proof -
  let ?e1 = "stub_env\<lparr>glob := \<lambda>pattern. []\<rparr>"
  let ?e2 = "stub_env\<lparr>viewInd := \<lambda>f t. Inl ValueError\<rparr>"
  have a: "glob ?e1 (path_join ''log'' ''*.out'') = []" by simp
  have s: "sort (glob ?e2 (path_join ''log'' ''*.out''))
             = [''log/gen1.out'', ''log/gen2.out'', ''log/gen3.out'']"
    using stub_sorted by (simp add: stub_env_def)
  have b: "slice_step (sort (glob ?e2 (path_join ''log'' ''*.out''))) 2
             = Inr [''log/gen1.out'', ''log/gen3.out'']"
    unfolding s by (simp add: slice_step_def)
  have c: "\<forall>f \<in> set [''log/gen1.out'', ''log/gen3.out''].
             rendered ?e2 ''slimevolley'' f = None"
    by (simp add: rendered_def)
  have d: "disk (no_world :: (path, path \<times> title) world) = Map.empty"
    by (simp add: no_world_def)
  show ?thesis
    using nothing_rendered_returns_normally[of ?e1 "''log''" 0 "[]" "''slimevolley''"
            "''evolution.gif''" 0 no_world]
      nothing_rendered_returns_normally[of ?e2 "''log''" 2 "[''log/gen1.out'', ''log/gen3.out'']"
            "''slimevolley''" "''evolution.gif''" 0 no_world]
      a b c d
    by simp
qed

section \<open>Frame duration\<close>

lemma duration_zero: "duration 0 = Inl ZeroDivisionError"
  by (simp add: duration_def)


lemma round_half_even_below:
  assumes "y - of_int \<lfloor>y\<rfloor> < 1 / 2"
  shows "round_half_even y = \<lfloor>y\<rfloor>"
  unfolding round_half_even_def Let_def using assms by (simp only: if_True)

lemma round_half_even_above:
  assumes "1 / 2 < y - of_int \<lfloor>y\<rfloor>"
  shows "round_half_even y = \<lfloor>y\<rfloor> + 1"
proof -
  have "\<not> y - of_int \<lfloor>y\<rfloor> < 1 / 2" using assms by linarith
  then show ?thesis
    unfolding round_half_even_def Let_def using assms by (simp only: if_True if_False)
qed





lemma duration_listed_rates:
  "\<forall>fps \<in> {1, 2, 5, 10, 30}. duration fps = Inr (round_half_even (1000 / of_int fps))"
  by code_simp

text \<open>
  Claim C10. With \<open>fps = 0\<close> and at least one frame rendered, each pipeline ends
  with an uncaught \<^verbatim>\<open>ZeroDivisionError\<close>. The world it leaves is the world at the end
  of the rendering loop, so every selected file was processed, and the files on disk
  are what they were: nothing was written.
\<close>

theorem zero_fps_raises_after_rendering:
  "(slice_step (sort (glob env (path_join networks_dir ''*.out''))) sample_every = Inr selected
    \<and> List.map_filter (rendered env task_name) selected \<noteq> [] \<longrightarrow>
    visualize_network_evolution env networks_dir output_gif task_name 0 sample_every w
      = (Raised ZeroDivisionError,
         snd (for_enumerate (render_frame env task_name (length selected)) 0 selected
                ([], emit (Creating (length selected)) (emit (Found (length selected)) w))))
    \<and> disk (snd (visualize_network_evolution env networks_dir output_gif task_name 0
                    sample_every w)) = disk w)
   \<and> (select_snapshots (sort (glob env (path_join networks_dir ''*.out''))) num_snapshots
         = Inr snapshots
       \<and> List.map_filter (rendered_snapshot env task_name) snapshots \<noteq> [] \<longrightarrow>
       create_comparison_gif env networks_dir output_gif task_name 0 num_snapshots w
         = (Raised ZeroDivisionError,
            snd (for_enumerate (render_snapshot env task_name (length snapshots)) 0 snapshots
                   ([], emit (CreatingComparison (length snapshots)) w)))
       \<and> disk (snd (create_comparison_gif env networks_dir output_gif task_name 0
                       num_snapshots w)) = disk w)"
proof (intro conjI impI)
  let ?files = "sort (glob env (path_join networks_dir ''*.out''))"
  {
    assume a: "slice_step ?files sample_every = Inr selected
               \<and> List.map_filter (rendered env task_name) selected \<noteq> []"
    let ?w1 = "emit (Creating (length selected)) (emit (Found (length selected)) w)"
    let ?loop = "for_enumerate (render_frame env task_name (length selected)) 0 selected
                   ([], ?w1)"
    have ne: "?files \<noteq> []"
      using a slice_step_Nil[of sample_every selected] by (auto simp: List.map_filter_def)
    obtain frames w2 where loop: "?loop = (frames, w2)" by (cases ?loop)
    have fr: "frames \<noteq> []"
      using render_loop_frames[of env task_name "length selected" 0 selected "[]" ?w1] loop a
      by simp
    have dk: "disk w2 = disk w"
      using render_loop_disk[of env task_name "length selected" 0 selected "[]" ?w1] loop
      by simp
    show "visualize_network_evolution env networks_dir output_gif task_name 0 sample_every w
            = (Raised ZeroDivisionError, snd ?loop)"
      using ne a loop fr
      by (simp add: visualize_network_evolution_def duration_zero Let_def)
    then show "disk (snd (visualize_network_evolution env networks_dir output_gif task_name 0
                    sample_every w)) = disk w"
      using loop dk by simp
  }
  {
    assume a: "select_snapshots ?files num_snapshots = Inr snapshots
               \<and> List.map_filter (rendered_snapshot env task_name) snapshots \<noteq> []"
    let ?w1 = "emit (CreatingComparison (length snapshots)) w"
    let ?loop = "for_enumerate (render_snapshot env task_name (length snapshots)) 0 snapshots
                   ([], ?w1)"
    have ne: "?files \<noteq> []"
    proof
      assume "?files = []"
      then have "snapshots = []" using a
        by (simp add: select_snapshots_def linspace_int_def split: if_splits)
      then show False using a by (simp add: List.map_filter_def)
    qed
    obtain frames w2 where loop: "?loop = (frames, w2)" by (cases ?loop)
    have fr: "frames \<noteq> []"
      using snapshot_loop_frames[of env task_name "length snapshots" 0 snapshots "[]" ?w1]
        loop a
      by simp
    have dk: "disk w2 = disk w"
      using snapshot_loop_disk[of env task_name "length snapshots" 0 snapshots "[]" ?w1] loop
      by simp
    show "create_comparison_gif env networks_dir output_gif task_name 0 num_snapshots w
            = (Raised ZeroDivisionError, snd ?loop)"
      using ne a loop fr
      by (simp add: create_comparison_gif_def duration_zero Let_def)
    then show "disk (snd (create_comparison_gif env networks_dir output_gif task_name 0
                       num_snapshots w)) = disk w"
      using loop dk by simp
  }
qed

lemma stub_snapshots:
  "select_snapshots (sort (glob stub_env (path_join ''log'' ''*.out''))) 2
     = Inr [''log/gen1.out'', ''log/gen3.out'']"
  by code_simp

lemma stub_rendered_snapshots:
  "List.map_filter (rendered_snapshot stub_env ''slimevolley'')
       [''log/gen1.out'', ''log/gen3.out'']
     = [(''log/gen1.out'', StatsTitle ''gen1'' 3 3), (''log/gen3.out'', StatsTitle ''gen3'' 3 3)]"
  by code_simp

theorem zero_fps_raises_after_rendering_witness:
  "slice_step (sort (glob stub_env (path_join ''log'' ''*.out''))) 1
     = Inr [''log/gen1.out'', ''log/gen2.out'', ''log/gen3.out'']
   \<and> List.map_filter (rendered stub_env ''slimevolley'')
        [''log/gen1.out'', ''log/gen2.out'', ''log/gen3.out''] \<noteq> []
   \<and> fst (visualize_network_evolution stub_env ''log'' ''evolution.gif'' ''slimevolley'' 0 1
             no_world) = Raised ZeroDivisionError
   \<and> disk (snd (visualize_network_evolution stub_env ''log'' ''evolution.gif'' ''slimevolley''
                   0 1 no_world)) = Map.empty
   \<and> select_snapshots (sort (glob stub_env (path_join ''log'' ''*.out''))) 2
        = Inr [''log/gen1.out'', ''log/gen3.out'']
   \<and> List.map_filter (rendered_snapshot stub_env ''slimevolley'')
        [''log/gen1.out'', ''log/gen3.out''] \<noteq> []
   \<and> fst (create_comparison_gif stub_env ''log'' ''comparison.gif'' ''slimevolley'' 0 2
             no_world) = Raised ZeroDivisionError
   \<and> disk (snd (create_comparison_gif stub_env ''log'' ''comparison.gif'' ''slimevolley'' 0 2
                   no_world)) = Map.empty"
proof -
  have a: "slice_step (sort (glob stub_env (path_join ''log'' ''*.out''))) 1
     = Inr [''log/gen1.out'', ''log/gen2.out'', ''log/gen3.out'']"
    by (simp add: stub_sorted slice_step_def every_nth_one)
  have b: "List.map_filter (rendered stub_env ''slimevolley'')
        [''log/gen1.out'', ''log/gen2.out'', ''log/gen3.out''] \<noteq> []"
    unfolding stub_rendered by simp
  have c: "List.map_filter (rendered_snapshot stub_env ''slimevolley'')
        [''log/gen1.out'', ''log/gen3.out''] \<noteq> []"
    unfolding stub_rendered_snapshots by simp
  have d: "disk (no_world :: (path, path \<times> title) world) = Map.empty"
    by (simp add: no_world_def)
  note t = zero_fps_raises_after_rendering[of stub_env "''log''" 1
        "[''log/gen1.out'', ''log/gen2.out'', ''log/gen3.out'']" "''slimevolley''" _
        no_world 2 "[''log/gen1.out'', ''log/gen3.out'']"]
  have p1: "fst (visualize_network_evolution stub_env ''log'' ''evolution.gif'' ''slimevolley''
             0 1 no_world) = Raised ZeroDivisionError"
    using t[of "''evolution.gif''"] a b by (metis fst_conv)
  have p2: "disk (snd (visualize_network_evolution stub_env ''log'' ''evolution.gif''
              ''slimevolley'' 0 1 no_world)) = Map.empty"
    using t[of "''evolution.gif''"] a b d by metis
  have q1: "fst (create_comparison_gif stub_env ''log'' ''comparison.gif'' ''slimevolley'' 0 2
             no_world) = Raised ZeroDivisionError"
    using t[of "''comparison.gif''"] stub_snapshots c by (metis fst_conv)
  have q2: "disk (snd (create_comparison_gif stub_env ''log'' ''comparison.gif''
              ''slimevolley'' 0 2 no_world)) = Map.empty"
    using t[of "''comparison.gif''"] stub_snapshots c d by metis
  show ?thesis
    using a b c stub_snapshots p1 p2 q1 q2 by blast
qed

section \<open>The comparison pipeline with few files\<close>




section \<open>Figures\<close>

lemma render_frame_closes_figure:
  assumes "viewInd env network_file task_name = Inr fig"
    and "rasterize env fig (Title (generation network_file)) = Inr img"
    and "fig \<notin> set (figures w)"
  shows "figures (snd (render_frame env task_name n i network_file (frames, w))) = figures w"
  using assms
  by (simp add: render_frame_def Let_def emit_def open_figure_def close_figure_def
      remove1_append)

lemma render_frame_leaves_figure:
  assumes "viewInd env network_file task_name = Inr fig"
    and "rasterize env fig (Title (generation network_file)) = Inl e"
  shows "figures (snd (render_frame env task_name n i network_file (frames, w)))
           = figures w @ [fig]"
  using assms
  by (simp add: render_frame_def Let_def emit_def open_figure_def)

text \<open>
  Claim C7 does not hold of the code. \<^verbatim>\<open>plt.close(fig)\<close> is the last statement of
  the \<^verbatim>\<open>try\<close> block; when a statement between \<^verbatim>\<open>nv.viewInd\<close> and it raises, the
  \<^verbatim>\<open>except\<close> branch prints and continues, and the figure stays open. With the stub
  renderer the figure of \<^verbatim>\<open>gen2\<close> is open after its iteration, and still open when
  either pipeline has returned.
\<close>

theorem figure_stays_open_when_drawing_fails:
  "figures (snd (render_frame stub_env ''slimevolley'' 3 1 ''log/gen2.out'' ([], no_world)))
     = [''log/gen2.out'']
   \<and> figures (snd (visualize_network_evolution stub_env ''log'' ''evolution.gif''
                     ''slimevolley'' 2 1 no_world)) = [''log/gen2.out'']
   \<and> figures (snd (create_comparison_gif stub_env ''log'' ''comparison.gif''
                     ''slimevolley'' 2 10 no_world)) = [''log/gen2.out'']"
  by code_simp

section \<open>The generation label\<close>

lemma str_replace_Nil: "old \<noteq> [] \<Longrightarrow> str_replace old new [] = []"
  by (simp add: str_replace.simps)

lemma str_replace_skip:
  "old \<noteq> [] \<Longrightarrow> \<not> prefix old (c # s) \<Longrightarrow>
     str_replace old new (c # s) = c # str_replace old new s"
  by (subst str_replace.simps) simp

lemma str_replace_hit:
  "old \<noteq> [] \<Longrightarrow> str_replace old new (old @ s) = new @ str_replace old new s"
  by (subst str_replace.simps) simp

lemma prefix_dot_out:
  assumes "prefix ''.out'' (s @ ''.out'')" and "s \<noteq> []"
  shows "prefix ''.out'' s"
proof -
  consider "s = []"
    | a where "s = [a]"
    | a b where "s = [a, b]"
    | a b c where "s = [a, b, c]"
    | a b c d t where "s = a # b # c # d # t"
    by (metis list.exhaust)
  then show ?thesis
    using assms by cases auto
qed

lemma sublist_tail: "\<not> sublist old (c # s) \<Longrightarrow> \<not> sublist old s"
  by (simp add: sublist_Cons_right)

lemma out_removed_at_end:
  "\<not> sublist ''.out'' s \<Longrightarrow> str_replace ''.out'' [] (s @ ''.out'') = s"
proof (induction s)
  case Nil
  show ?case
    using str_replace_hit[of "''.out''" "[]" "[]"] by (simp add: str_replace_Nil)
next
  case (Cons c s)
  have np: "\<not> prefix ''.out'' (c # s)"
    using Cons.prems prefix_imp_sublist by blast
  then have "\<not> prefix ''.out'' ((c # s) @ ''.out'')"
    using prefix_dot_out[of "c # s"] by blast
  then have "str_replace ''.out'' [] ((c # s) @ ''.out'')
               = c # str_replace ''.out'' [] (s @ ''.out'')"
    using str_replace_skip[of "''.out''" c "s @ ''.out''" "[]"] by simp
  then show ?case
    using Cons.IH sublist_tail[OF Cons.prems] by simp
qed

lemma stem_out:
  assumes "\<exists>c \<in> set s. c \<noteq> CHR ''.''"
  shows "stem (s @ ''.out'') = s"
  using assms by (auto simp: stem_def list_all_iff)

text \<open>
  Claim C8, as stated, fails: \<^verbatim>\<open>replace\<close> deletes every \<^verbatim>\<open>.out\<close> of the base
  name, not only the extension. The file \<^verbatim>\<open>net.output.out\<close> gets the label
  \<^verbatim>\<open>netput\<close>, and its stem is \<^verbatim>\<open>net.output\<close>.
\<close>

theorem label_differs_from_stem:
  "generation ''log/net.output.out'' = ''netput''
   \<and> stem (basename ''log/net.output.out'') = ''net.output''"
  by code_simp

text \<open>
  Claim C8, amended. When the base name of a snapshot file is some \<open>s\<close> followed by
  \<^verbatim>\<open>.out\<close>, with no \<^verbatim>\<open>.out\<close> inside \<open>s\<close> and a character other than a dot in
  \<open>s\<close>, the generation label is \<open>s\<close>, which is the stem of the base name.
\<close>

theorem generation_label_is_stem:
  assumes "basename network_file = s @ ''.out''"
    and "\<not> sublist ''.out'' s"
    and "\<exists>c \<in> set s. c \<noteq> CHR ''.''"
  shows "generation network_file = s \<and> stem (basename network_file) = s"
  using assms by (simp add: generation_def out_removed_at_end stem_out)

theorem generation_label_is_stem_witness:
  "basename ''log/success3_best/gen0032.out'' = ''gen0032'' @ ''.out''
   \<and> \<not> sublist ''.out'' ''gen0032''
   \<and> CHR ''g'' \<in> set ''gen0032'' \<and> CHR ''g'' \<noteq> CHR ''.''
   \<and> generation ''log/success3_best/gen0032.out'' = ''gen0032''
   \<and> stem (basename ''log/success3_best/gen0032.out'') = ''gen0032''"
proof -
  have a: "basename ''log/success3_best/gen0032.out'' = ''gen0032'' @ ''.out''"
    by code_simp
  have b: "\<not> sublist ''.out'' ''gen0032''"
    by code_simp
  have c: "\<exists>c \<in> set ''gen0032''. c \<noteq> CHR ''.''"
    by simp
  have d: "CHR ''g'' \<in> set ''gen0032'' \<and> CHR ''g'' \<noteq> CHR ''.''"
    by simp
  from generation_label_is_stem[OF a b c] a b d show ?thesis
    by blast
qed

section \<open>Rounding to double precision\<close>

lemma round_half_even_error: "\<bar>of_int (round_half_even y) - y\<bar> \<le> 1 / 2"
proof -
  define r where "r = y - of_int \<lfloor>y\<rfloor>"
  have r: "0 \<le> r" "r < 1" unfolding r_def by linarith+
  have y: "y = of_int \<lfloor>y\<rfloor> + r" by (simp add: r_def)
  consider "r < 1 / 2" | "1 / 2 < r" | "r = 1 / 2" by linarith
  then show ?thesis
  proof cases
    case 1
    then have "round_half_even y = \<lfloor>y\<rfloor>"
      using round_half_even_below[of y] by (simp add: r_def)
    then have "of_int (round_half_even y) - y = - r" by (simp add: r_def)
    then show ?thesis using r 1 by simp
  next
    case 2
    then have "round_half_even y = \<lfloor>y\<rfloor> + 1"
      using round_half_even_above[of y] by (simp add: r_def)
    then have "of_int (round_half_even y) - y = 1 - r" by (simp add: r_def)
    then show ?thesis using r 2 by simp
  next
    case 3
    have "round_half_even y = \<lfloor>y\<rfloor> \<or> round_half_even y = \<lfloor>y\<rfloor> + 1"
      by (simp add: round_half_even_def Let_def)
    then have "of_int (round_half_even y) - y = - r \<or> of_int (round_half_even y) - y = 1 - r"
      by (auto simp: r_def)
    then show ?thesis using 3 by auto
  qed
qed

lemma round_half_even_of_int: "round_half_even (of_int n) = n"
  by (simp add: round_half_even_def)

lemma round_half_even_ge_floor: "\<lfloor>y\<rfloor> \<le> round_half_even y"
  by (simp add: round_half_even_def Let_def)

lemma binary_exponent_nonneg: "1 \<le> x \<Longrightarrow> 0 \<le> binary_exponent x"
proof -
  assume x: "1 \<le> x"
  then have "0 < \<lfloor>x\<rfloor>" by linarith
  then have "bitlen \<lfloor>x\<rfloor> \<noteq> 0" by (simp add: bitlen_eq_zero_iff)
  then have "1 \<le> bitlen \<lfloor>x\<rfloor>" using bitlen_nonneg[of "\<lfloor>x\<rfloor>"] by linarith
  then show ?thesis using x by (simp add: binary_exponent_def)
qed

lemma binary_exponent_lower:
  assumes x: "1 \<le> x"
  shows "2 ^ nat (binary_exponent x) \<le> x"
proof -
  have p: "0 < \<lfloor>x\<rfloor>" using x by linarith
  have "(2::int) ^ nat (bitlen \<lfloor>x\<rfloor> - 1) \<le> \<lfloor>x\<rfloor>"
    using bitlen_bounds[OF p] by simp
  then have "rat_of_int (2 ^ nat (bitlen \<lfloor>x\<rfloor> - 1)) \<le> of_int \<lfloor>x\<rfloor>"
    by (simp only: of_int_le_iff)
  also have "\<dots> \<le> x" by simp
  finally show ?thesis using x by (simp add: binary_exponent_def)
qed

lemma binary_exponent_upper:
  assumes x: "1 \<le> x"
  shows "x < 2 ^ (nat (binary_exponent x) + 1)"
proof -
  have p: "0 < \<lfloor>x\<rfloor>" using x by linarith
  have e: "0 \<le> binary_exponent x" using binary_exponent_nonneg[OF x] .
  have "\<lfloor>x\<rfloor> < 2 ^ nat (bitlen \<lfloor>x\<rfloor>)"
    using bitlen_bounds[OF p] by simp
  then have "\<lfloor>x\<rfloor> + 1 \<le> 2 ^ nat (bitlen \<lfloor>x\<rfloor>)" by simp
  then have "rat_of_int (\<lfloor>x\<rfloor> + 1) \<le> of_int (2 ^ nat (bitlen \<lfloor>x\<rfloor>))"
    by (simp only: of_int_le_iff)
  moreover have "x < rat_of_int (\<lfloor>x\<rfloor> + 1)" by simp linarith
  moreover have "nat (bitlen \<lfloor>x\<rfloor>) = nat (binary_exponent x) + 1"
    using x e by (simp add: binary_exponent_def)
  ultimately show ?thesis by simp
qed

text \<open>The unit in the last place of a value \<open>x \<ge> 1\<close>.\<close>

lemma ulp_pos: "(0::rat) < 2 powi k"
  by simp

lemma ulp_upper:
  assumes x: "1 \<le> x"
  shows "2 powi (binary_exponent x - 52) \<le> x / 2 ^ 52"
proof -
  have e: "0 \<le> binary_exponent x" using binary_exponent_nonneg[OF x] .
  have "(2::rat) powi (binary_exponent x - 52) = 2 powi binary_exponent x / 2 powi 52"
    by (simp add: power_int_diff)
  also have "\<dots> = 2 ^ nat (binary_exponent x) / 2 ^ 52"
    using e by (simp add: power_int_def)
  also have "\<dots> \<le> x / 2 ^ 52"
    using binary_exponent_lower[OF x] by (simp add: divide_right_mono)
  finally show ?thesis .
qed

lemma to_double_zero: "to_double 0 = 0"
  by (simp add: to_double_def)

lemma to_double_error:
  assumes x: "1 \<le> x"
  shows "\<bar>to_double x - x\<bar> \<le> x / 2 ^ 53"
proof -
  define u :: rat where "u = 2 powi (binary_exponent x - 52)"
  have u: "0 < u" by (simp add: u_def)
  have ax: "\<bar>x\<bar> = x" using x by simp
  have td: "to_double x = of_int (round_half_even (x / u)) * u"
    using x by (simp add: to_double_def Let_def u_def ax)
  have "to_double x - x = (of_int (round_half_even (x / u)) - x / u) * u"
    using u by (simp add: td field_simps)
  then have "\<bar>to_double x - x\<bar> = \<bar>of_int (round_half_even (x / u)) - x / u\<bar> * u"
    using u by (simp add: abs_mult)
  also have "\<dots> \<le> 1 / 2 * u"
    using round_half_even_error[of "x / u"] u by (simp add: mult_right_mono)
  also have "\<dots> \<le> 1 / 2 * (x / 2 ^ 52)"
    using ulp_upper[OF x] by (simp add: u_def)
  also have "\<dots> = x / 2 ^ 53" by simp
  finally show ?thesis .
qed

lemma to_double_ge_one:
  assumes x: "1 \<le> x"
  shows "1 \<le> to_double x"
proof -
  define u :: rat where "u = 2 powi (binary_exponent x - 52)"
  have u: "0 < u" by (simp add: u_def)
  have ax: "\<bar>x\<bar> = x" using x by simp
  have e: "0 \<le> binary_exponent x" using binary_exponent_nonneg[OF x] .
  have td: "to_double x = of_int (round_half_even (x / u)) * u"
    using x by (simp add: to_double_def Let_def u_def ax)
  have "u = 2 powi binary_exponent x / 2 ^ 52"
    by (simp add: u_def power_int_diff)
  then have "u * 2 ^ 52 = 2 powi binary_exponent x" by simp
  then have uu: "u * 2 ^ 52 = 2 ^ nat (binary_exponent x)"
    using e by (simp add: power_int_nonneg_exp)
  then have "u * 2 ^ 52 \<le> x" using binary_exponent_lower[OF x] by simp
  then have "rat_of_int (2 ^ 52) \<le> x / u" using u by (simp add: field_simps)
  then have "2 ^ 52 \<le> \<lfloor>x / u\<rfloor>" by (simp only: le_floor_iff)
  then have "2 ^ 52 \<le> round_half_even (x / u)"
    using round_half_even_ge_floor[of "x / u"] by linarith
  then have "rat_of_int (2 ^ 52) \<le> of_int (round_half_even (x / u))"
    by (simp only: of_int_le_iff)
  then have "rat_of_int (2 ^ 52) * u \<le> to_double x"
    using u by (simp add: td mult_right_mono)
  then have "2 ^ nat (binary_exponent x) \<le> to_double x"
    using uu by (simp add: mult.commute)
  moreover have "(1::rat) \<le> 2 ^ nat (binary_exponent x)"
    by (rule one_le_power) simp
  ultimately show ?thesis by (rule order_trans[rotated])
qed

lemma to_double_of_int:
  assumes n: "0 \<le> n" "n < 2 ^ 53"
  shows "to_double (of_int n) = of_int n"
proof (cases "n = 0")
  case True
  then show ?thesis by (simp add: to_double_zero)
next
  case False
  define x :: rat where "x = of_int n"
  have x: "1 \<le> x" using False n by (simp add: x_def)
  define k where "k = nat (binary_exponent x)"
  have e: "0 \<le> binary_exponent x" using binary_exponent_nonneg[OF x] .
  have "(2::rat) ^ k \<le> x" using binary_exponent_lower[OF x] by (simp add: k_def)
  also have "x < 2 ^ 53" using n by (simp add: x_def)
  finally have lt: "(2::rat) ^ k < 2 ^ 53" .
  have "k < 53" using power_less_imp_less_exp[OF _ lt] by simp
  then have k: "k \<le> 52" by simp
  define u :: rat where "u = 2 powi (binary_exponent x - 52)"
  have "u = 2 powi (int k - 52)" using e by (simp add: u_def k_def)
  also have "\<dots> = 1 / 2 powi (52 - int k)"
    by (simp add: power_int_diff)
  also have "\<dots> = 1 / 2 ^ (52 - k)"
    using k by (simp add: power_int_def nat_diff_distrib)
  finally have uk: "u = 1 / 2 ^ (52 - k)" .
  have ax: "\<bar>x\<bar> = x" using x by simp
  have td: "to_double x = of_int (round_half_even (x / u)) * u"
    using x by (simp add: to_double_def Let_def u_def ax)
  have "x / u = of_int (n * 2 ^ (52 - k))" by (simp add: uk x_def)
  then have "round_half_even (x / u) = n * 2 ^ (52 - k)"
    by (simp only: round_half_even_of_int)
  then have "to_double x = of_int (n * 2 ^ (52 - k)) * u" by (simp add: td)
  also have "\<dots> = x" by (simp add: uk x_def)
  finally show ?thesis by (simp add: x_def)
qed

section \<open>The interpolated positions\<close>

lemma fmul_fdiv_error:
  fixes a b :: int and i :: nat
  assumes b: "1 \<le> b" and ab: "b \<le> a" and i: "1 \<le> i"
  shows "1 \<le> fmul (of_nat i) (fdiv (of_int a) (of_int b))"
    and "\<bar>fmul (of_nat i) (fdiv (of_int a) (of_int b)) - of_nat i * of_int a / of_int b\<bar>
           \<le> (of_nat i * of_int a / of_int b) * 3 / 2 ^ 53"
proof -
  define e :: rat where "e = 1 / 2 ^ 53"
  have e: "0 < e" "e \<le> 1" by (simp_all add: e_def)
  define x where "x = rat_of_int a / of_int b"
  have b0: "(0::rat) < of_int b" using b by simp
  have "rat_of_int b \<le> of_int a" using ab by (simp only: of_int_le_iff)
  then have x1: "1 \<le> x" using b0 by (simp add: x_def field_simps)
  define s where "s = to_double x"
  have s1: "1 \<le> s" using to_double_ge_one[OF x1] by (simp add: s_def)
  have se: "\<bar>s - x\<bar> \<le> x * e"
    using to_double_error[OF x1] by (simp add: s_def e_def)
  define n where "n = rat_of_nat i"
  have n1: "1 \<le> n" using i by (simp add: n_def)
  define t where "t = n * s"
  have t1: "1 \<le> t"
    using mult_mono[of 1 n 1 s] n1 s1 by (simp add: t_def)
  define p where "p = to_double t"
  have p1: "1 \<le> p" using to_double_ge_one[OF t1] by (simp add: p_def)
  have pe: "\<bar>p - t\<bar> \<le> t * e"
    using to_double_error[OF t1] by (simp add: p_def e_def)
  define q where "q = n * x"
  have q0: "0 \<le> q" using n1 x1 by (simp add: q_def)
  have "t - q = n * (s - x)" by (simp add: t_def q_def algebra_simps)
  then have "\<bar>t - q\<bar> = n * \<bar>s - x\<bar>" using n1 by (simp add: abs_mult)
  also have "\<dots> \<le> n * (x * e)" using se n1 by (simp add: mult_left_mono)
  also have "\<dots> = q * e" by (simp add: q_def)
  finally have tq: "\<bar>t - q\<bar> \<le> q * e" .
  have qe0: "0 \<le> q * e" using q0 e by simp
  have "q * e * e \<le> q * e * 1" using qe0 e by (intro mult_left_mono) simp_all
  then have qee: "q * e * e \<le> q * e" by simp
  have "t \<le> q + q * e" using tq by linarith
  then have "t * e \<le> (q + q * e) * e" using e by (simp add: mult_right_mono)
  then have te: "t * e \<le> q * e + q * e" using qee by (simp add: algebra_simps)
  have "\<bar>p - q\<bar> \<le> \<bar>p - t\<bar> + \<bar>t - q\<bar>" by linarith
  then have "\<bar>p - q\<bar> \<le> q * e * 3" using pe tq te by linarith
  moreover have "p = fmul (of_nat i) (fdiv (of_int a) (of_int b))"
    by (simp add: p_def t_def s_def x_def n_def fmul_def fdiv_def)
  moreover have "q = of_nat i * of_int a / of_int b"
    by (simp add: q_def x_def n_def)
  ultimately show "\<bar>fmul (of_nat i) (fdiv (of_int a) (of_int b))
                    - of_nat i * of_int a / of_int b\<bar>
           \<le> (of_nat i * of_int a / of_int b) * 3 / 2 ^ 53"
    by (simp add: e_def)
  show "1 \<le> fmul (of_nat i) (fdiv (of_int a) (of_int b))"
    using p1 \<open>p = fmul (of_nat i) (fdiv (of_int a) (of_int b))\<close> by simp
qed

lemma floor_interior_in_range:
  fixes a b :: int and i :: nat
  assumes b: "1 \<le> b" and ab: "b < a" and i: "1 \<le> i" and ib: "int i < b"
    and a: "a < 2 ^ 52"
  shows "0 \<le> \<lfloor>fmul (of_nat i) (fdiv (of_int a) (of_int b))\<rfloor>"
    and "\<lfloor>fmul (of_nat i) (fdiv (of_int a) (of_int b))\<rfloor> \<le> a"
proof -
  define p where "p = fmul (of_nat i) (fdiv (of_int a) (of_int b))"
  define q where "q = rat_of_nat i * of_int a / of_int b"
  have ab': "b \<le> a" using ab by simp
  have p1: "1 \<le> p" and pq: "\<bar>p - q\<bar> \<le> q * 3 / 2 ^ 53"
    using fmul_fdiv_error[OF b ab' i] by (simp_all add: p_def q_def)
  have b0: "(0::rat) < of_int b" using b by simp
  have "int i * a \<le> (b - 1) * a" using ib ab b by (intro mult_right_mono) simp_all
  also have "\<dots> = b * a - a" by (simp add: algebra_simps)
  also have "\<dots> \<le> b * a - b" using ab by simp
  also have "\<dots> = (a - 1) * b" by (simp add: algebra_simps)
  finally have "int i * a \<le> (a - 1) * b" .
  then have "rat_of_int (int i * a) \<le> of_int ((a - 1) * b)" by (simp only: of_int_le_iff)
  then have "rat_of_nat i * of_int a \<le> of_int (a - 1) * of_int b" by simp
  then have qa: "q \<le> of_int (a - 1)" using b0 by (simp add: q_def field_simps)
  have "rat_of_int (a - 1) < of_int (2 ^ 52)" using a by (simp only: of_int_less_iff)
  then have q52: "q < 2 ^ 52" using qa by simp
  have "q * 3 / 2 ^ 53 < 2" using q52 by simp
  then have "p < q + 2" using pq by linarith
  then have "p < of_int (a + 1)" using qa by simp
  then have "\<lfloor>p\<rfloor> < a + 1" by (simp only: floor_less_iff)
  then show "\<lfloor>fmul (of_nat i) (fdiv (of_int a) (of_int b))\<rfloor> \<le> a" by (simp add: p_def)
  have "0 \<le> \<lfloor>p\<rfloor>" using p1 by simp
  then show "0 \<le> \<lfloor>fmul (of_nat i) (fdiv (of_int a) (of_int b))\<rfloor>" by (simp add: p_def)
qed

lemma floor_interior_value:
  fixes a b :: int and i :: nat
  assumes b: "1 \<le> b" and ab: "b \<le> a" and i: "1 \<le> i"
    and small: "3 * (int i * a) < 2 ^ 53"
  shows "\<lfloor>fmul (of_nat i) (fdiv (of_int a) (of_int b))\<rfloor> = (int i * a) div b
       \<or> (\<lfloor>fmul (of_nat i) (fdiv (of_int a) (of_int b))\<rfloor> = (int i * a) div b - 1
          \<and> b dvd int i * a)"
proof -
  define p where "p = fmul (of_nat i) (fdiv (of_int a) (of_int b))"
  define c where "c = int i * a"
  define q where "q = rat_of_int c / of_int b"
  define m where "m = c div b"
  define r where "r = c mod b"
  define h where "h = 1 / rat_of_int b"
  have b0: "(0::rat) < of_int b" using b by simp
  have h: "0 < h" "h \<le> 1" using b by (simp_all add: h_def)
  have q': "q = of_nat i * of_int a / of_int b" by (simp add: q_def c_def)
  have pq: "\<bar>p - q\<bar> \<le> q * 3 / 2 ^ 53"
    using fmul_fdiv_error(2)[OF b ab i] by (simp add: p_def q')
  have "rat_of_int (3 * c) < of_int (2 ^ 53)"
    using small unfolding c_def by (simp only: of_int_less_iff)
  then have "rat_of_int c * 3 / 2 ^ 53 < 1" by simp
  then have "rat_of_int c * 3 / 2 ^ 53 * h < 1 * h"
    using h by (intro mult_strict_right_mono) simp_all
  moreover have "q * 3 / 2 ^ 53 = rat_of_int c * 3 / 2 ^ 53 * h"
    by (simp add: q_def h_def)
  ultimately have "q * 3 / 2 ^ 53 < h" by simp
  then have near: "\<bar>p - q\<bar> < h" using pq by linarith
  have r: "0 \<le> r" "r < b" using b by (simp_all add: r_def)
  have "c = m * b + r" by (simp add: m_def r_def)
  then have "rat_of_int c = of_int m * of_int b + of_int r"
    by (metis of_int_add of_int_mult)
  then have qm: "q = of_int m + of_int r * h"
    using b0 by (simp add: q_def h_def field_simps)
  show ?thesis
  proof (cases "r = 0")
    case True
    then have "q = of_int m" using qm by simp
    then have "of_int m - 1 < p" "p < of_int m + 1" using near h by linarith+
    then have "of_int (m - 1) \<le> p" "p < of_int (m + 1)" by simp_all
    then have "m - 1 \<le> \<lfloor>p\<rfloor>" "\<lfloor>p\<rfloor> < m + 1"
      by (simp_all only: le_floor_iff floor_less_iff)
    then have "\<lfloor>p\<rfloor> = m \<or> \<lfloor>p\<rfloor> = m - 1" by linarith
    moreover have "b dvd c" using True by (simp add: r_def mod_eq_0_iff_dvd)
    ultimately show ?thesis by (auto simp: p_def m_def c_def)
  next
    case False
    then have r1: "1 \<le> r" "r \<le> b - 1" using r by simp_all
    have "rat_of_int 1 \<le> of_int r" "rat_of_int r \<le> of_int (b - 1)"
      using r1 by (simp_all only: of_int_le_iff)
    then have "1 * h \<le> of_int r * h" "of_int r * h \<le> of_int (b - 1) * h"
      using h by (simp_all add: mult_right_mono)
    moreover have "rat_of_int (b - 1) * h = 1 - h"
      using b0 by (simp add: h_def field_simps)
    ultimately have "h \<le> of_int r * h" "of_int r * h \<le> 1 - h" by simp_all
    then have "of_int m < p" "p < of_int m + 1" using near qm by linarith+
    then have "of_int m \<le> p" "p < of_int (m + 1)" by simp_all
    then have "m \<le> \<lfloor>p\<rfloor>" "\<lfloor>p\<rfloor> < m + 1"
      by (simp_all only: le_floor_iff floor_less_iff)
    then have "\<lfloor>p\<rfloor> = m" by linarith
    then show ?thesis by (simp add: p_def m_def c_def)
  qed
qed

section \<open>Even sampling\<close>

lemma linspace_int_eq:
  assumes K: "2 \<le> K" and Ka: "K \<le> a" and a: "a < 2 ^ 52"
  shows "linspace_int a K = Inr (map (interpolated a K) [0 ..< nat K])"
proof -
  define b where "b = K - 1"
  define step where "step = fdiv (of_int a) (of_int b)"
  have b: "1 \<le> b" "b < a" using K Ka by (simp_all add: b_def)
  have db: "to_double (of_int b) = of_int b"
    using b a by (intro to_double_of_int) simp_all
  have da: "to_double (of_int a) = of_int a"
    using b a by (intro to_double_of_int) simp_all
  have di: "to_double (of_nat i) = of_nat i" if "i < nat K" for i
  proof -
    have "to_double (of_int (int i)) = of_int (int i)"
      using that Ka a by (intro to_double_of_int) simp_all
    then show ?thesis by simp
  qed
  have ys: "map (\<lambda>i. to_double (rat_of_nat i)) [0 ..< nat K] = map rat_of_nat [0 ..< nat K]"
    using di by (intro map_cong) simp_all
  have "b \<le> a" using b by simp
  then have "rat_of_int b \<le> of_int a" by (simp only: of_int_le_iff)
  then have "1 \<le> rat_of_int a / of_int b" using b by (simp add: field_simps)
  then have "1 \<le> step" unfolding step_def fdiv_def by (rule to_double_ge_one)
  then have s0: "step \<noteq> 0" by simp
  have "linspace_int a K
          = Inr (map floor ((map (\<lambda>i. fmul (of_nat i) step) [0 ..< nat K])
                              [nat K - 1 := of_int a]))"
    using K s0 b
    by (simp add: linspace_int_def Let_def ys db da step_def[symmetric] b_def[symmetric]
        o_def)
  also have "map floor ((map (\<lambda>i. fmul (of_nat i) step) [0 ..< nat K]) [nat K - 1 := of_int a])
               = map (interpolated a K) [0 ..< nat K]"
    by (rule nth_equalityI)
       (simp_all add: interpolated_def nth_list_update step_def b_def)
  finally show ?thesis .
qed

lemma interpolated_first:
  assumes "2 \<le> K"
  shows "interpolated a K 0 = 0"
proof -
  have "0 \<noteq> nat K - 1" using assms by linarith
  then show ?thesis by (simp add: interpolated_def fmul_def to_double_zero)
qed

lemma interpolated_last: "interpolated a K (nat K - 1) = a"
  by (simp add: interpolated_def)

lemma interpolated_in_range:
  assumes K: "2 \<le> K" and Ka: "K \<le> a" and a: "a < 2 ^ 52" and i: "i < nat K"
  shows "0 \<le> interpolated a K i \<and> interpolated a K i \<le> a"
proof -
  consider "i = 0" | "i = nat K - 1" | "1 \<le> i" "int i < K - 1"
    using i by linarith
  then show ?thesis
  proof cases
    case 1
    then show ?thesis using K Ka by (simp add: interpolated_first)
  next
    case 2
    then show ?thesis using K Ka by (simp add: interpolated_def)
  next
    case 3
    then have ne: "i \<noteq> nat K - 1" by linarith
    have b: "1 \<le> K - 1" "K - 1 < a" using K Ka by simp_all
    show ?thesis
      using floor_interior_in_range[OF b 3 a] ne by (simp add: interpolated_def)
  qed
qed

lemma getitems_in_range:
  "\<forall>j \<in> set js. 0 \<le> j \<and> j < int (length xs) \<Longrightarrow>
     getitems xs js = Inr (map (\<lambda>j. xs ! nat j) js)"
  by (induction js) (simp_all add: getitem_def)

lemma select_snapshots_eq:
  assumes K: "2 \<le> K" and KN: "K < int (length files)" and N: "length files \<le> 2 ^ 52"
  shows "linspace_int (int (length files) - 1) K
           = Inr (map (interpolated (int (length files) - 1) K) [0 ..< nat K])"
    and "select_snapshots files K
           = Inr (map (\<lambda>i. files ! nat (interpolated (int (length files) - 1) K i))
                    [0 ..< nat K])"
proof -
  define a where "a = int (length files) - 1"
  have Ka: "K \<le> a" using KN by (simp add: a_def)
  have "int (length files) \<le> 2 ^ 52" using N by (metis of_nat_le_iff of_nat_numeral of_nat_power)
  then have a: "a < 2 ^ 52" by (simp add: a_def)
  have lin: "linspace_int a K = Inr (map (interpolated a K) [0 ..< nat K])"
    using linspace_int_eq[OF K Ka a] .
  then show "linspace_int (int (length files) - 1) K
           = Inr (map (interpolated (int (length files) - 1) K) [0 ..< nat K])"
    by (simp add: a_def)
  have rng: "\<forall>j \<in> set (map (interpolated a K) [0 ..< nat K]). 0 \<le> j \<and> j < int (length files)"
    using interpolated_in_range[OF K Ka a] by (auto simp: a_def)
  show "select_snapshots files K
           = Inr (map (\<lambda>i. files ! nat (interpolated (int (length files) - 1) K i))
                    [0 ..< nat K])"
    using KN lin getitems_in_range[OF rng]
    by (simp add: select_snapshots_def a_def[symmetric] o_def)
qed

text \<open>
  Claim C2, as stated, fails for a single requested snapshot: \<^verbatim>\<open>linspace\<close> with one
  sample yields only the start, so of two files the first is selected and the last
  is not.
\<close>

theorem single_snapshot_omits_last:
  "select_snapshots [''log/gen1.out'', ''log/gen2.out''] 1 = Inr [''log/gen1.out'']
   \<and> last [''log/gen1.out'', ''log/gen2.out''] \<notin> set [''log/gen1.out'']"
  by code_simp

text \<open>
  Claim C2, amended. For a list of at most \<open>2\<^sup>5\<^sup>2\<close> files and a requested count
  \<open>K\<close> with \<open>2 \<le> K \<le> N\<close>, the comparison pipeline's selection raises nothing
  and has exactly \<open>K\<close> files; its first file is the first of the list and its last
  file is the last of the list.
\<close>

theorem even_sampling_keeps_first_and_last:
  assumes "2 \<le> K" and "K \<le> int (length files)" and "length files \<le> 2 ^ 52"
  shows "case select_snapshots files K of
           Inl e \<Rightarrow> False
         | Inr selected \<Rightarrow>
             int (length selected) = K \<and> hd selected = hd files \<and> last selected = last files"
proof (cases "K = int (length files)")
  case True
  then show ?thesis by (simp add: select_snapshots_def)
next
  case False
  with assms have KN: "K < int (length files)" by simp
  define a where "a = int (length files) - 1"
  define sel where "sel = map (\<lambda>i. files ! nat (interpolated a K i)) [0 ..< nat K]"
  have s: "select_snapshots files K = Inr sel"
    using select_snapshots_eq(2)[OF assms(1) KN assms(3)] by (simp add: sel_def a_def)
  have len: "length sel = nat K" by (simp add: sel_def)
  have ne: "sel \<noteq> []" "files \<noteq> []" using len assms(1) KN by auto
  have "hd sel = sel ! 0" using ne by (simp add: hd_conv_nth)
  also have "\<dots> = files ! 0"
    using assms(1) by (simp add: sel_def interpolated_first)
  also have "\<dots> = hd files" using ne by (simp add: hd_conv_nth)
  finally have h: "hd sel = hd files" .
  have "last sel = sel ! (nat K - 1)" using ne len by (simp add: last_conv_nth)
  also have "\<dots> = files ! nat a"
    using assms(1) by (simp add: sel_def interpolated_def)
  also have "\<dots> = files ! (length files - 1)"
  proof -
    have "nat a = length files - 1" unfolding a_def by linarith
    then show ?thesis by simp
  qed
  also have "\<dots> = last files" using ne by (simp add: last_conv_nth)
  finally have l: "last sel = last files" .
  show ?thesis using s len h l assms(1) by simp
qed

lemma six_positions_four_samples: "linspace_int 5 4 = Inr [0, 1, 3, 5]"
  by code_simp

lemma six_files_four_snapshots:
  "select_snapshots [''g0.out'', ''g1.out'', ''g2.out'', ''g3.out'', ''g4.out'', ''g5.out''] 4
     = Inr [''g0.out'', ''g1.out'', ''g3.out'', ''g5.out'']"
  by code_simp

theorem even_sampling_keeps_first_and_last_witness:
  "(2::int) \<le> 4
   \<and> 4 \<le> int (length [''g0.out'', ''g1.out'', ''g2.out'', ''g3.out'', ''g4.out'', ''g5.out''])
   \<and> length [''g0.out'', ''g1.out'', ''g2.out'', ''g3.out'', ''g4.out'', ''g5.out'']
        \<le> 2 ^ 52
   \<and> select_snapshots [''g0.out'', ''g1.out'', ''g2.out'', ''g3.out'', ''g4.out'', ''g5.out''] 4
        = Inr [''g0.out'', ''g1.out'', ''g3.out'', ''g5.out'']
   \<and> int (length [''g0.out'', ''g1.out'', ''g3.out'', ''g5.out'']) = 4
   \<and> hd [''g0.out'', ''g1.out'', ''g3.out'', ''g5.out'']
        = hd [''g0.out'', ''g1.out'', ''g2.out'', ''g3.out'', ''g4.out'', ''g5.out'']
   \<and> last [''g0.out'', ''g1.out'', ''g3.out'', ''g5.out'']
        = last [''g0.out'', ''g1.out'', ''g2.out'', ''g3.out'', ''g4.out'', ''g5.out'']"
proof -
  have a: "(2::int) \<le> 4" by simp
  have b: "4 \<le> int (length [''g0.out'', ''g1.out'', ''g2.out'', ''g3.out'', ''g4.out'',
                               ''g5.out''])" by simp
  have c: "length [''g0.out'', ''g1.out'', ''g2.out'', ''g3.out'', ''g4.out'', ''g5.out'']
             \<le> 2 ^ 52" by simp
  from even_sampling_keeps_first_and_last[OF a b c] a b c six_files_four_snapshots
  show ?thesis by simp
qed

text \<open>
  Claim C3, as stated, fails: the positions are cut to their integer part, not
  rounded to the nearest integer. Of six files with four snapshots the indices are
  0, 1, 3, 5; the second position is \<open>1 * 5 / 3\<close>, which rounds to 2.
\<close>

theorem indices_not_rounded_to_nearest:
  "linspace_int 5 4 = Inr [0, 1, 3, 5] \<and> round_half_even (1 * 5 / 3) = 2"
  by code_simp

text \<open>
  The product \<open>i * step\<close> is itself rounded to a double, and can fall just below an
  integer that the exact quotient reaches: of 31 files with 23 snapshots the position
  with \<open>i = 11\<close> is exactly 15, and the index is 14.
\<close>

lemma product_below_integer:
  "linspace_int 30 23 =
     Inr [0, 1, 2, 4, 5, 6, 8, 9, 10, 12, 13, 14, 16, 17, 19, 20, 21, 23, 24, 25, 27, 28, 30]
   \<and> (11 * 30) div (22::int) = 15"
  by code_simp

text \<open>
  Claim C3, amended. For a list of at most \<open>2\<^sup>2\<^sup>5\<close> files and \<open>2 \<le> K < N\<close>, the
  selection takes the files at \<open>K\<close> indices, and the \<open>i\<close>-th index is the
  interpolated position \<open>i * (N - 1) / (K - 1)\<close> rounded down: it is
  \<open>\<lfloor>i * (N - 1) / (K - 1)\<rfloor>\<close>, except that strictly between the first and the last
  index, where \<open>K - 1\<close> divides \<open>i * (N - 1)\<close>, it may be one less than the quotient.
\<close>

theorem even_sampling_indices_round_down:
  assumes "2 \<le> K" and "K < int (length files)" and "length files \<le> 2 ^ 25"
  shows "case linspace_int (int (length files) - 1) K of
           Inl e \<Rightarrow> False
         | Inr indices \<Rightarrow>
             select_snapshots files K = Inr (map (\<lambda>j. files ! nat j) indices)
             \<and> length indices = nat K
             \<and> (\<forall>i < nat K.
                  indices ! i = (int i * (int (length files) - 1)) div (K - 1)
                  \<or> (indices ! i = (int i * (int (length files) - 1)) div (K - 1) - 1
                     \<and> (K - 1) dvd int i * (int (length files) - 1)
                     \<and> 0 < i \<and> i < nat K - 1))"
proof -
  define a where "a = int (length files) - 1"
  have N52: "length files \<le> 2 ^ 52"
    using assms(3) by (rule order_trans) simp
  have lin: "linspace_int a K = Inr (map (interpolated a K) [0 ..< nat K])"
    and sel: "select_snapshots files K
                = Inr (map (\<lambda>i. files ! nat (interpolated a K i)) [0 ..< nat K])"
    using select_snapshots_eq[OF assms(1,2) N52] by (simp_all add: a_def)
  have "int (length files) \<le> 2 ^ 25"
    using assms(3) by (metis of_nat_le_iff of_nat_numeral of_nat_power)
  then have a25: "a < 2 ^ 25" and K25: "K < 2 ^ 25" using assms(2) by (simp_all add: a_def)
  have a0: "0 \<le> a" using assms(1,2) unfolding a_def by linarith
  have b: "1 \<le> K - 1" "K - 1 \<le> a" using assms(1,2) unfolding a_def by linarith+
  have val: "interpolated a K i = (int i * a) div (K - 1)
       \<or> (interpolated a K i = (int i * a) div (K - 1) - 1
          \<and> (K - 1) dvd int i * a \<and> 0 < i \<and> i < nat K - 1)" if i: "i < nat K" for i
  proof -
    consider "i = 0" | "i = nat K - 1" | "1 \<le> i" "i < nat K - 1"
      using i by linarith
    then show ?thesis
    proof cases
      case 1
      then show ?thesis using assms(1) by (simp add: interpolated_first)
    next
      case 2
      then have "int i = K - 1" using assms(1) by simp
      then have "(int i * a) div (K - 1) = a" using b by simp
      then show ?thesis using 2 by (simp add: interpolated_def)
    next
      case 3
      have "int i * a \<le> 2 ^ 25 * 2 ^ 25"
        using i K25 a25 a0 by (intro mult_mono) simp_all
      then have small: "3 * (int i * a) < 2 ^ 53" by simp
      have "interpolated a K i = \<lfloor>fmul (of_nat i) (fdiv (of_int a) (of_int (K - 1)))\<rfloor>"
        using 3 by (simp add: interpolated_def)
      then show ?thesis
        using floor_interior_value[OF b 3(1) small] 3 by auto
    qed
  qed
  show ?thesis
    using lin sel val by (simp add: a_def[symmetric] o_def)
qed

theorem even_sampling_indices_round_down_witness:
  "(2::int) \<le> 4
   \<and> 4 < int (length [''g0.out'', ''g1.out'', ''g2.out'', ''g3.out'', ''g4.out'', ''g5.out''])
   \<and> length [''g0.out'', ''g1.out'', ''g2.out'', ''g3.out'', ''g4.out'', ''g5.out'']
        \<le> 2 ^ 25
   \<and> linspace_int 5 4 = Inr [0, 1, 3, 5]
   \<and> select_snapshots [''g0.out'', ''g1.out'', ''g2.out'', ''g3.out'', ''g4.out'', ''g5.out''] 4
        = Inr (map (\<lambda>j. [''g0.out'', ''g1.out'', ''g2.out'', ''g3.out'', ''g4.out'',
                          ''g5.out''] ! nat j) [0, 1, 3, 5])
   \<and> [0, 1, 3, 5] ! 1 = (int 1 * (int 6 - 1)) div (4 - 1)"
proof -
  let ?files = "[''g0.out'', ''g1.out'', ''g2.out'', ''g3.out'', ''g4.out'', ''g5.out'']"
  have a: "(2::int) \<le> 4" by simp
  have b: "4 < int (length ?files)" by simp
  have c: "length ?files \<le> 2 ^ 25" by simp
  have l: "linspace_int (int (length ?files) - 1) 4 = Inr [0, 1, 3, 5]"
    using six_positions_four_samples by simp
  from even_sampling_indices_round_down[OF a b c] a b c l
  show ?thesis by simp
qed

end
